theory Spec2Isabelle
  imports Complex_Main "HOL-Library.List_Lexorder" "HOL-Library.Char_ord"
begin

section \<open>Range bars and cumulative volume delta: the aggregation core of app.py\<close>

text \<open>
  The development embeds the stateful core of \<^verbatim>\<open>src/app.py\<close>: the three keys of
  \<^verbatim>\<open>st.session_state\<close> (\<^verbatim>\<open>bars\<close>, \<^verbatim>\<open>current_bar\<close>, \<^verbatim>\<open>last_trade_id\<close>), the reset
  button, \<^verbatim>\<open>init_new_bar\<close>, \<^verbatim>\<open>process_tick\<close>, the pure part of \<^verbatim>\<open>fetch_data\<close> and what
  one turn of \<^verbatim>\<open>main_loop\<close> hands to the chart and to the status line.

  Conventions of the embedding.
  \<^item> Python floats (\<^verbatim>\<open>float(trade['price'])\<close>, \<^verbatim>\<open>float(trade['amount'])\<close>) are modelled
    as \<^typ>\<open>real\<close>: rounding, infinities and NaN are not modelled.
  \<^item> A trade id is a \<^typ>\<open>string\<close>, as in the unified trade structure of the exchange
    library. Python compares strings lexicographically by code point; this is the
    order of \<^typ>\<open>string\<close> that the imported list and character orders give.
  \<^item> \<^verbatim>\<open>trade['side']\<close> is one of the two values the trade structure allows.
  \<^item> \<^verbatim>\<open>datetime.fromtimestamp(timestamp/1000)\<close> is represented by the number of
    seconds it is built from.
  \<^item> The session state is passed explicitly and returned updated.
\<close>

subsection \<open>Data\<close>

datatype side = Buy | Sell

record trade =
  t_id :: string
  t_price :: real
  t_amount :: real
  t_side :: side
  t_timestamp :: int

text \<open>The dictionary built by \<^verbatim>\<open>init_new_bar\<close>; \<^verbatim>\<open>open\<close> is spelt \<open>open_b\<close>.\<close>

record bar =
  time :: real
  open_b :: real
  high :: real
  low :: real
  close :: real
  volume :: real
  cvd_delta :: real
  cvd_cum :: real

text \<open>
  \<^verbatim>\<open>collections.deque(maxlen=n)\<close>: \<^verbatim>\<open>append\<close> adds on the right and, when the deque is
  longer than \<^verbatim>\<open>maxlen\<close> afterwards, discards from the left. \<^verbatim>\<open>maxlen=None\<close> is the
  unbounded deque.
\<close>

record 'a deque =
  maxlen :: "nat option"
  dq_items :: "'a list"

definition dq_append :: "'a deque \<Rightarrow> 'a \<Rightarrow> 'a deque" where
  "dq_append d x =
     (let ys = dq_items d @ [x]
      in case maxlen d of
           None \<Rightarrow> d\<lparr>dq_items := ys\<rparr>
         | Some n \<Rightarrow> d\<lparr>dq_items := drop (length ys - n) ys\<rparr>)"

record state =
  bars :: "bar deque"
  current_bar :: "bar option"
  last_trade_id :: "string option"

text \<open>Lines 41-46: the state of a fresh session.\<close>

definition initial_state :: state where
  "initial_state =
     \<lparr>bars = \<lparr>maxlen = Some 200, dq_items = []\<rparr>, current_bar = None, last_trade_id = None\<rparr>"

text \<open>
  Lines 32-35, the reset button. The rerun that follows finds all three keys present and
  initialises nothing.
\<close>

definition reset :: "state \<Rightarrow> state" where
  "reset st = st\<lparr>bars := \<lparr>maxlen = Some 100, dq_items = []\<rparr>, current_bar := None\<rparr>"

subsection \<open>The range-bar logic\<close>

text \<open>Lines 84-97.\<close>

definition init_new_bar :: "state \<Rightarrow> real \<Rightarrow> int \<Rightarrow> state" where
  "init_new_bar st p ts =
     (let prev_cum = (if length (dq_items (bars st)) > 0
                      then cvd_cum (last (dq_items (bars st))) else 0)
      in st\<lparr>current_bar := Some
            \<lparr>time = real_of_int ts / 1000,
             open_b = p, high = p, low = p, close = p,
             volume = 0,
             cvd_delta = 0,
             cvd_cum = prev_cum\<rparr>\<rparr>)"

text \<open>
  Lines 51-82. The bar is mutated in place; on the close branch a copy goes into the
  deque and \<^verbatim>\<open>init_new_bar\<close> replaces the open bar. The \<open>None\<close> case after step 1 cannot
  occur (Python would raise on the subscript); it returns the state as it is.
\<close>

definition process_tick :: "state \<Rightarrow> trade \<Rightarrow> real \<Rightarrow> state" where
  "process_tick st trade range_height_val =
     (let price = t_price trade;
          amount = t_amount trade;
          side = t_side trade;
          timestamp = t_timestamp trade;
          st1 = (if current_bar st = None then init_new_bar st price timestamp else st)
      in case current_bar st1 of
           None \<Rightarrow> st1
         | Some bar0 \<Rightarrow>
             (let bar1 = bar0\<lparr>high := max (high bar0) price\<rparr>;
                  bar2 = bar1\<lparr>low := min (low bar1) price\<rparr>;
                  bar3 = bar2\<lparr>close := price\<rparr>;
                  bar4 = bar3\<lparr>volume := volume bar3 + amount\<rparr>;
                  delta = (if side = Buy then amount else - amount);
                  bar5 = bar4\<lparr>cvd_delta := cvd_delta bar4 + delta\<rparr>
              in if high bar5 - low bar5 \<ge> range_height_val
                 then (let bar6 = bar5\<lparr>cvd_cum := cvd_cum bar5 + cvd_delta bar5\<rparr>;
                           st2 = st1\<lparr>current_bar := Some bar6,
                                     bars := dq_append (bars st1) bar6\<rparr>
                       in init_new_bar st2 price timestamp)
                 else st1\<lparr>current_bar := Some bar5\<rparr>))"

text \<open>Lines 119-120: the loop over the new trades.\<close>

fun process_ticks :: "state \<Rightarrow> trade list \<Rightarrow> real \<Rightarrow> state" where
  "process_ticks st [] range_h = st"
| "process_ticks st (trade # rest) range_h = process_ticks (process_tick st trade range_h) rest range_h"

subsection \<open>Fetching and deduplication\<close>

definition TICK_VALUE :: real where
  "TICK_VALUE = 1 / 100"

text \<open>
  Lines 110-113. The test \<^verbatim>\<open>if st.session_state.last_trade_id:\<close> is Python truthiness:
  \<^verbatim>\<open>None\<close> and the empty string both take the \<^verbatim>\<open>else\<close> branch.
\<close>

definition dedupe :: "string option \<Rightarrow> trade list \<Rightarrow> trade list" where
  "dedupe last_id trades =
     (case last_id of
        None \<Rightarrow> trades
      | Some l \<Rightarrow> if l \<noteq> [] then filter (\<lambda>t. t_id t > l) trades else trades)"

text \<open>
  Lines 107-120 for a fetch that returned \<open>trades\<close>; \<open>range_input\<close> is the value of the
  sidebar's number input (an integer, at least 1). A fetch that raises is caught at line
  122 before anything is assigned, and leaves the state as it is.
\<close>

definition fetch_data :: "state \<Rightarrow> trade list \<Rightarrow> int \<Rightarrow> state" where
  "fetch_data st trades range_input =
     (let new_trades = dedupe (last_trade_id st) trades
      in if new_trades \<noteq> []
         then (let st1 = st\<lparr>last_trade_id := Some (t_id (last new_trades))\<rparr>;
                   range_h = real_of_int range_input * TICK_VALUE
               in process_ticks st1 new_trades range_h)
         else st)"


subsection \<open>Closed forms of the steps of \<^verbatim>\<open>process_tick\<close>\<close>

text \<open>
  The bar that step 1 creates (the dictionary of \<^verbatim>\<open>init_new_bar\<close>), the effect of steps 2
  and 3 on a bar, the bar these steps start from, and the bar as step 4 stores it. They
  are related to \<open>process_tick\<close> by the lemmas \<open>process_tick_keep\<close> and
  \<open>process_tick_close\<close>.
\<close>

definition fresh_bar :: "state \<Rightarrow> trade \<Rightarrow> bar" where
  "fresh_bar st trade =
     \<lparr>time = real_of_int (t_timestamp trade) / 1000,
      open_b = t_price trade, high = t_price trade, low = t_price trade, close = t_price trade,
      volume = 0, cvd_delta = 0,
      cvd_cum = (if dq_items (bars st) = [] then 0 else cvd_cum (last (dq_items (bars st))))\<rparr>"

definition signed_amount :: "trade \<Rightarrow> real" where
  "signed_amount trade = (if t_side trade = Buy then t_amount trade else - t_amount trade)"

definition signed_sum :: "trade list \<Rightarrow> real" where
  "signed_sum ts = sum_list (map signed_amount ts)"

definition updated_bar :: "bar \<Rightarrow> trade \<Rightarrow> bar" where
  "updated_bar b trade =
     b\<lparr>high := max (high b) (t_price trade), low := min (low b) (t_price trade),
       close := t_price trade, volume := volume b + t_amount trade,
       cvd_delta := cvd_delta b + signed_amount trade\<rparr>"

definition opening_bar :: "state \<Rightarrow> trade \<Rightarrow> bar" where
  "opening_bar st trade = (case current_bar st of None \<Rightarrow> fresh_bar st trade | Some b \<Rightarrow> b)"

definition finalized :: "bar \<Rightarrow> bar" where
  "finalized b = b\<lparr>cvd_cum := cvd_cum b + cvd_delta b\<rparr>"

subsection \<open>Every bar ever closed\<close>

text \<open>
  The deque forgets bars, so the list of all bars closed by a run is read off the same
  program run on a deque without bound (\<^verbatim>\<open>maxlen=None\<close>). Lemma \<open>history_suffix\<close>
  shows that the bounded history is the tail of this list.
\<close>

definition unbounded :: "state \<Rightarrow> state" where
  "unbounded st = st\<lparr>bars := (bars st)\<lparr>maxlen := None\<rparr>\<rparr>"

definition closed_bars :: "state \<Rightarrow> trade list \<Rightarrow> real \<Rightarrow> bar list" where
  "closed_bars st ts h = dq_items (bars (process_ticks (unbounded st) ts h))"

text \<open>The bounded run \<open>sb\<close> and the unbounded run \<open>su\<close> agree up to the forgotten bars.\<close>

definition sim :: "nat \<Rightarrow> state \<Rightarrow> state \<Rightarrow> bool" where
  "sim cap sb su \<longleftrightarrow>
     current_bar sb = current_bar su \<and> last_trade_id sb = last_trade_id su \<and>
     maxlen (bars sb) = Some cap \<and> maxlen (bars su) = None \<and>
     dq_items (bars sb) = drop (length (dq_items (bars su)) - cap) (dq_items (bars su))"

text \<open>
  For a run from the initial state: the number of bars closed before trade \<open>k\<close> is
  processed, which is the index of the bar trade \<open>k\<close> is accumulated into; the trades
  accumulated into bar \<open>n\<close>; whether trade \<open>k\<close> closes a bar; the index of the trade whose
  price seeded the bar that is open when trade \<open>k\<close> arrives (trade 0 for the first bar,
  the closing trade of the previous bar otherwise); and the prices the open bar has seen
  once trade \<open>k\<close> is applied.
\<close>

definition bar_index :: "trade list \<Rightarrow> real \<Rightarrow> nat \<Rightarrow> nat" where
  "bar_index ts h k = length (closed_bars initial_state (take k ts) h)"

definition attributed :: "trade list \<Rightarrow> real \<Rightarrow> nat \<Rightarrow> trade list" where
  "attributed ts h n = map (\<lambda>k. ts ! k) (filter (\<lambda>k. bar_index ts h k = n) [0..<length ts])"




subsection \<open>The example of the specification\<close>

definition example_trades :: "trade list" where
  "example_trades =
     [\<lparr>t_id = ''1'', t_price = 100, t_amount = 2, t_side = Buy, t_timestamp = 1000\<rparr>,
      \<lparr>t_id = ''2'', t_price = 1001 / 10, t_amount = 1, t_side = Sell, t_timestamp = 2000\<rparr>,
      \<lparr>t_id = ''3'', t_price = 10016 / 100, t_amount = 3, t_side = Buy, t_timestamp = 3000\<rparr>]"

text \<open>The threshold of the example: 15 ticks of 0.01.\<close>

definition example_h :: real where
  "example_h = 15 / 100"

subsection \<open>One turn of \<^verbatim>\<open>main_loop\<close>\<close>

text \<open>
  Lines 141-180. What the chart and the status line are given: the data frame built
  from \<^verbatim>\<open>st.session_state.bars\<close> and the three values of the status text, or nothing
  (the notice that data is awaited) when the deque is empty.
\<close>

record view =
  frame :: "bar list"
  last_price :: real
  last_cvd :: real
  bar_count :: nat

definition main_loop_view :: "state \<Rightarrow> view option" where
  "main_loop_view st =
     (if length (dq_items (bars st)) > 0
      then (let df = dq_items (bars st)
            in Some \<lparr>frame = df, last_price = close (last df), last_cvd = cvd_cum (last df),
                     bar_count = length df\<rparr>)
      else None)"

text \<open>Lines 137-177: the body of the loop, for a fetch that returned \<open>trades\<close>.\<close>

definition main_loop_turn :: "state \<Rightarrow> trade list \<Rightarrow> int \<Rightarrow> state \<times> view option" where
  "main_loop_turn st trades range_input =
     (let st' = fetch_data st trades range_input in (st', main_loop_view st'))"

subsection \<open>Successive fetches\<close>

text \<open>
  The state after the fetches of the loop have returned the given batches, and the
  trades these fetches have passed on to \<open>process_tick\<close>.
\<close>

fun cycles :: "state \<Rightarrow> int \<Rightarrow> trade list list \<Rightarrow> state" where
  "cycles st r [] = st"
| "cycles st r (b # bs) = cycles (fetch_data st b r) r bs"



text \<open>A trade with a given id, for the examples.\<close>

definition trade_with_id :: "string \<Rightarrow> trade" where
  "trade_with_id i = \<lparr>t_id = i, t_price = 100, t_amount = 1, t_side = Buy, t_timestamp = 0\<rparr>"

definition example_trade4 :: trade where
  "example_trade4 =
     \<lparr>t_id = ''4'', t_price = 1002 / 10, t_amount = 1, t_side = Buy, t_timestamp = 4000\<rparr>"


section \<open>Lemmas\<close>

subsection \<open>One call of \<^verbatim>\<open>process_tick\<close>\<close>

lemma init_new_bar_eq: "init_new_bar st (t_price trade) (t_timestamp trade) = st\<lparr>current_bar := Some (fresh_bar st trade)\<rparr>"
  by (simp add: init_new_bar_def fresh_bar_def)

lemma process_tick_keep:
  assumes "high (updated_bar (opening_bar st trade) trade) - low (updated_bar (opening_bar st trade) trade) < h"
  shows "process_tick st trade h = st\<lparr>current_bar := Some (updated_bar (opening_bar st trade) trade)\<rparr>"
  using assms
  by (cases "current_bar st")
     (simp_all add: process_tick_def init_new_bar_def opening_bar_def fresh_bar_def updated_bar_def signed_amount_def Let_def)

lemma process_tick_close:
  assumes "h \<le> high (updated_bar (opening_bar st trade) trade) - low (updated_bar (opening_bar st trade) trade)"
  shows "process_tick st trade h =
     (let b = finalized (updated_bar (opening_bar st trade) trade);
          st2 = st\<lparr>bars := dq_append (bars st) b\<rparr>
      in st2\<lparr>current_bar := Some (fresh_bar st2 trade)\<rparr>)"
  using assms
  by (cases "current_bar st")
     (simp_all add: process_tick_def init_new_bar_def opening_bar_def fresh_bar_def updated_bar_def signed_amount_def finalized_def Let_def)

lemma process_tick_open_bar:
  assumes "0 < h"
  shows "\<exists>b. current_bar (process_tick st trade h) = Some b \<and> high b - low b < h"
proof (cases "h \<le> high (updated_bar (opening_bar st trade) trade) - low (updated_bar (opening_bar st trade) trade)")
  case True
  then show ?thesis using assms
    by (simp add: process_tick_close Let_def fresh_bar_def)
next
  case False
  then show ?thesis
    by (simp add: process_tick_keep)
qed

subsection \<open>The bounded history is the tail of the unbounded one\<close>

lemma process_ticks_append:
  "process_ticks st (xs @ ys) h = process_ticks (process_ticks st xs h) ys h"
  by (induction xs arbitrary: st) simp_all

lemma process_ticks_snoc:
  "process_ticks st (xs @ [x]) h = process_tick (process_ticks st xs h) x h"
  by (simp add: process_ticks_append)

lemma drop_suffix_empty:
  "0 < cap \<Longrightarrow> drop (length H - cap) H = [] \<longleftrightarrow> H = []"
  by (cases H) auto

lemma drop_suffix_last:
  "0 < cap \<Longrightarrow> H \<noteq> [] \<Longrightarrow> last (drop (length H - cap) H) = last H"
  by (simp add: last_drop)

lemma drop_suffix_snoc:
  assumes "0 < (cap::nat)"
  shows "drop (length (drop (length H - cap) H @ [x]) - cap) (drop (length H - cap) H @ [x])
         = drop (length (H @ [x]) - cap) (H @ [x])"
proof (cases "length H < cap")
  case True
  then show ?thesis by simp
next
  case False
  then have "length H - (length H - cap) = cap" by simp
  with False assms show ?thesis
    by (simp add: Suc_diff_le)
qed

lemma sim_history:
  assumes "0 < cap" and "sim cap sb su"
  shows "(dq_items (bars sb) = []) = (dq_items (bars su) = [])"
    and "dq_items (bars su) \<noteq> [] \<Longrightarrow> last (dq_items (bars sb)) = last (dq_items (bars su))"
proof -
  have eq: "dq_items (bars sb) = drop (length (dq_items (bars su)) - cap) (dq_items (bars su))"
    using assms(2) by (simp add: sim_def)
  show "(dq_items (bars sb) = []) = (dq_items (bars su) = [])"
    unfolding eq by (rule drop_suffix_empty [OF assms(1)])
  show "dq_items (bars su) \<noteq> [] \<Longrightarrow> last (dq_items (bars sb)) = last (dq_items (bars su))"
    unfolding eq by (rule drop_suffix_last [OF assms(1)])
qed

lemma sim_fresh_bar:
  assumes "0 < cap" and "sim cap sb su"
  shows "fresh_bar sb trade = fresh_bar su trade"
  using sim_history [OF assms] by (simp add: fresh_bar_def)

lemma sim_opening_bar:
  assumes "0 < cap" and "sim cap sb su"
  shows "opening_bar sb trade = opening_bar su trade"
  using sim_fresh_bar [OF assms] assms(2)
  by (cases "current_bar su") (simp_all add: opening_bar_def sim_def)

lemma sim_append:
  assumes "0 < cap" and "sim cap sb su"
  shows "sim cap (sb\<lparr>bars := dq_append (bars sb) b\<rparr>) (su\<lparr>bars := dq_append (bars su) b\<rparr>)"
proof -
  let ?H = "dq_items (bars su)"
  have eq: "dq_items (bars sb) = drop (length ?H - cap) ?H"
    using assms(2) by (simp add: sim_def)
  have mb: "maxlen (bars sb) = Some cap" and mu: "maxlen (bars su) = None"
    using assms(2) by (simp_all add: sim_def)
  have "dq_items (dq_append (bars sb) b)
        = drop (length (dq_items (bars sb) @ [b]) - cap) (dq_items (bars sb) @ [b])"
    by (simp add: dq_append_def mb)
  also have "\<dots> = drop (length (?H @ [b]) - cap) (?H @ [b])"
    unfolding eq by (rule drop_suffix_snoc [OF assms(1)])
  finally have items: "dq_items (dq_append (bars sb) b) = drop (length (?H @ [b]) - cap) (?H @ [b])" .
  have u: "dq_items (dq_append (bars su) b) = ?H @ [b]" "maxlen (dq_append (bars su) b) = None"
    by (simp_all add: dq_append_def mu)
  have m: "maxlen (dq_append (bars sb) b) = Some cap"
    by (simp add: dq_append_def mb)
  have c: "current_bar sb = current_bar su" "last_trade_id sb = last_trade_id su"
    using assms(2) by (simp_all add: sim_def)
  have sel: "bars (sb\<lparr>bars := dq_append (bars sb) b\<rparr>) = dq_append (bars sb) b"
            "bars (su\<lparr>bars := dq_append (bars su) b\<rparr>) = dq_append (bars su) b"
    by simp_all
  show ?thesis
    unfolding sim_def sel items u m using c by simp
qed

lemma sim_step:
  assumes "0 < cap" and "sim cap sb su"
  shows "sim cap (process_tick sb trade h) (process_tick su trade h)"
proof (cases "h \<le> high (updated_bar (opening_bar su trade) trade) - low (updated_bar (opening_bar su trade) trade)")
  case True
  let ?b = "finalized (updated_bar (opening_bar su trade) trade)"
  let ?sb = "sb\<lparr>bars := dq_append (bars sb) ?b\<rparr>"
  let ?su = "su\<lparr>bars := dq_append (bars su) ?b\<rparr>"
  have s: "sim cap ?sb ?su"
    by (rule sim_append [OF assms])
  then have "sim cap (?sb\<lparr>current_bar := Some (fresh_bar ?sb trade)\<rparr>)
                     (?su\<lparr>current_bar := Some (fresh_bar ?su trade)\<rparr>)"
    using sim_fresh_bar [OF \<open>0 < cap\<close> s, of trade] by (simp add: sim_def)
  with True show ?thesis
    by (simp add: process_tick_close sim_opening_bar [OF assms] Let_def)
next
  case False
  with assms(2) show ?thesis
    by (simp add: process_tick_keep sim_opening_bar [OF assms] sim_def)
qed

lemma sim_run:
  assumes "0 < cap" and "sim cap sb su"
  shows "sim cap (process_ticks sb ts h) (process_ticks su ts h)"
  using assms(2)
proof (induction ts arbitrary: sb su)
  case Nil
  then show ?case by simp
next
  case (Cons t ts)
  then show ?case using sim_step [OF \<open>0 < cap\<close>] by simp
qed

lemma sim_unbounded:
  assumes "maxlen (bars st) = Some cap" and "length (dq_items (bars st)) \<le> cap"
  shows "sim cap st (unbounded st)"
  using assms by (simp add: sim_def unbounded_def)

lemma history_suffix:
  assumes "0 < cap" and "maxlen (bars st) = Some cap" and "length (dq_items (bars st)) \<le> cap"
  shows "dq_items (bars (process_ticks st ts h)) = drop (length (closed_bars st ts h) - cap) (closed_bars st ts h)"
  using sim_run [OF assms(1) sim_unbounded [OF assms(2,3)], of ts h]
  by (simp add: sim_def closed_bars_def)

subsection \<open>Closed bars and the trades accumulated into them\<close>

lemma unbounded_maxlen_tick:
  "maxlen (bars s) = None \<Longrightarrow> maxlen (bars (process_tick s trade h)) = None"
  by (cases "h \<le> high (updated_bar (opening_bar s trade) trade) - low (updated_bar (opening_bar s trade) trade)")
     (simp_all add: process_tick_close process_tick_keep Let_def dq_append_def)

lemma unbounded_maxlen_run:
  "maxlen (bars s) = None \<Longrightarrow> maxlen (bars (process_ticks s ts h)) = None"
  by (induction ts arbitrary: s) (simp_all add: unbounded_maxlen_tick)

lemma unbounded_items_tick:
  assumes "maxlen (bars s) = None"
  shows "dq_items (bars (process_tick s trade h)) =
         dq_items (bars s) @
           (if h \<le> high (updated_bar (opening_bar s trade) trade) - low (updated_bar (opening_bar s trade) trade)
            then [finalized (updated_bar (opening_bar s trade) trade)] else [])"
  using assms
  by (cases "h \<le> high (updated_bar (opening_bar s trade) trade) - low (updated_bar (opening_bar s trade) trade)")
     (simp_all add: process_tick_close process_tick_keep Let_def dq_append_def)

lemma closed_bars_snoc:
  "closed_bars st (ts @ [t]) h =
     closed_bars st ts h @
       (let s = process_ticks (unbounded st) ts h; u = updated_bar (opening_bar s t) t
        in if h \<le> high u - low u then [finalized u] else [])"
  by (simp add: closed_bars_def process_ticks_snoc Let_def
        unbounded_items_tick [OF unbounded_maxlen_run] unbounded_def)

lemma closed_bars_append:
  "\<exists>ys. closed_bars st (ts @ us) h = closed_bars st ts h @ ys"
proof (induction us rule: rev_induct)
  case Nil
  then show ?case by simp
next
  case (snoc u us)
  then obtain ys where ys: "closed_bars st (ts @ us) h = closed_bars st ts h @ ys" ..
  show ?case
    using closed_bars_snoc [of st "ts @ us" u h] ys by (auto simp: Let_def)
qed

lemma bar_index_le:
  "bar_index ts h k \<le> length (closed_bars initial_state ts h)"
proof -
  obtain ys where "closed_bars initial_state (take k ts @ drop k ts) h
                   = closed_bars initial_state (take k ts) h @ ys"
    using closed_bars_append by blast
  then show ?thesis by (simp add: bar_index_def)
qed

lemma bar_index_snoc:
  "k \<le> length ts \<Longrightarrow> bar_index (ts @ [t]) h k = bar_index ts h k"
  by (simp add: bar_index_def)

lemma bar_index_length:
  "bar_index ts h (length ts) = length (closed_bars initial_state ts h)"
  by (simp add: bar_index_def)

lemma attributed_snoc:
  "attributed (ts @ [t]) h n =
     attributed ts h n @ (if length (closed_bars initial_state ts h) = n then [t] else [])"
proof -
  have "map (\<lambda>k. (ts @ [t]) ! k) (filter (\<lambda>k. bar_index (ts @ [t]) h k = n) [0..<length ts])
        = map (\<lambda>k. ts ! k) (filter (\<lambda>k. bar_index ts h k = n) [0..<length ts])"
    by (rule map_cong filter_cong arg_cong2 [where f = map])
       (auto simp: bar_index_snoc nth_append intro!: filter_cong)
  then show ?thesis
    by (simp add: attributed_def bar_index_snoc bar_index_length)
qed

lemma attributed_beyond:
  assumes "length (closed_bars initial_state ts h) < n"
  shows "attributed ts h n = []"
proof -
  have "bar_index ts h k \<noteq> n" for k
    using bar_index_le [of ts h k] assms by linarith
  then show ?thesis
    by (simp add: attributed_def)
qed

lemma signed_sum_simps [simp]:
  "signed_sum [] = 0" "signed_sum (xs @ [x]) = signed_sum xs + signed_amount x"
  by (simp_all add: signed_sum_def)


lemma unbounded_initial_run_bar:
  "process_ticks (unbounded initial_state) ts h = s \<Longrightarrow>
   (ts = [] \<longrightarrow> current_bar s = None \<and> dq_items (bars s) = []) \<and>
   (ts \<noteq> [] \<longrightarrow> current_bar s \<noteq> None)"
proof (induction ts arbitrary: s rule: rev_induct)
  case Nil
  then show ?case by (auto simp: unbounded_def initial_state_def)
next
  case (snoc t ts)
  show ?case
    using snoc.prems
    by (cases "h \<le> high (updated_bar (opening_bar (process_ticks (unbounded initial_state) ts h) t) t)
                  - low (updated_bar (opening_bar (process_ticks (unbounded initial_state) ts h) t) t)")
       (auto simp: process_ticks_snoc process_tick_close process_tick_keep Let_def)
qed

text \<open>The invariant of the run with every closed bar kept.\<close>

lemma cvd_invariant:
  fixes ts h
  defines "s \<equiv> process_ticks (unbounded initial_state) ts h"
  defines "H \<equiv> closed_bars initial_state ts h"
  shows "(\<forall>n<length H. cvd_cum (H ! n) = (if n = 0 then 0 else cvd_cum (H ! (n - 1))) + cvd_delta (H ! n))
       \<and> (\<forall>n<length H. cvd_delta (H ! n) = signed_sum (attributed ts h n))
       \<and> (\<forall>b. current_bar s = Some b \<longrightarrow>
              cvd_cum b = (if H = [] then 0 else cvd_cum (last H)) \<and>
              cvd_delta b = signed_sum (attributed ts h (length H)))"
  unfolding s_def H_def
proof (induction ts rule: rev_induct)
  case Nil
  show ?case
    by (simp add: closed_bars_def unbounded_def initial_state_def)
next
  case (snoc t ts)
  let ?s = "process_ticks (unbounded initial_state) ts h"
  let ?H = "closed_bars initial_state ts h"
  let ?o = "opening_bar ?s t"
  let ?u = "updated_bar ?o t"
  have sH: "dq_items (bars ?s) = ?H"
    by (simp add: closed_bars_def)
  have chain: "\<forall>n<length ?H. cvd_cum (?H ! n) = (if n = 0 then 0 else cvd_cum (?H ! (n - 1))) + cvd_delta (?H ! n)"
    and deltas: "\<forall>n<length ?H. cvd_delta (?H ! n) = signed_sum (attributed ts h n)"
    and cur: "\<forall>b. current_bar ?s = Some b \<longrightarrow>
              cvd_cum b = (if ?H = [] then 0 else cvd_cum (last ?H)) \<and>
              cvd_delta b = signed_sum (attributed ts h (length ?H))"
    using snoc.IH by blast+
  have o_cum: "cvd_cum ?o = (if ?H = [] then 0 else cvd_cum (last ?H))"
    and o_delta: "cvd_delta ?o = signed_sum (attributed ts h (length ?H))"
  proof -
    show "cvd_cum ?o = (if ?H = [] then 0 else cvd_cum (last ?H))"
      using cur by (cases "current_bar ?s") (simp_all add: opening_bar_def fresh_bar_def sH)
    show "cvd_delta ?o = signed_sum (attributed ts h (length ?H))"
    proof (cases "current_bar ?s")
      case None
      then have "ts = []"
        using unbounded_initial_run_bar [of ts h ?s] by auto
      with None show ?thesis
        by (simp add: opening_bar_def fresh_bar_def attributed_def)
    next
      case (Some b)
      with cur show ?thesis by (simp add: opening_bar_def)
    qed
  qed
  have u_delta: "cvd_delta ?u = signed_sum (attributed (ts @ [t]) h (length ?H))"
    by (simp add: updated_bar_def o_delta attributed_snoc)
  have u_cum: "cvd_cum ?u = cvd_cum ?o"
    by (simp add: updated_bar_def)
  have old: "n < length ?H \<Longrightarrow> attributed (ts @ [t]) h n = attributed ts h n" for n
    by (simp add: attributed_snoc)
  show ?case
  proof (cases "h \<le> high ?u - low ?u")
    case False
    then have H': "closed_bars initial_state (ts @ [t]) h = ?H"
      by (simp add: closed_bars_snoc Let_def)
    have s': "process_ticks (unbounded initial_state) (ts @ [t]) h = ?s\<lparr>current_bar := Some ?u\<rparr>"
      using False by (simp add: process_ticks_snoc process_tick_keep)
    show ?thesis
      unfolding H' s' using chain deltas old u_delta u_cum o_cum by simp
  next
    case True
    let ?f = "finalized ?u"
    have H': "closed_bars initial_state (ts @ [t]) h = ?H @ [?f]"
      using True by (simp add: closed_bars_snoc Let_def)
    have f_cum: "cvd_cum ?f = (if ?H = [] then 0 else cvd_cum (last ?H)) + cvd_delta ?f"
      by (simp add: finalized_def u_cum o_cum)
    have f_delta: "cvd_delta ?f = signed_sum (attributed (ts @ [t]) h (length ?H))"
      by (simp add: finalized_def u_delta)
    have c1: "\<forall>n<length (?H @ [?f]). cvd_cum ((?H @ [?f]) ! n)
               = (if n = 0 then 0 else cvd_cum ((?H @ [?f]) ! (n - 1))) + cvd_delta ((?H @ [?f]) ! n)"
    proof (intro allI impI)
      fix n assume n: "n < length (?H @ [?f])"
      show "cvd_cum ((?H @ [?f]) ! n)
               = (if n = 0 then 0 else cvd_cum ((?H @ [?f]) ! (n - 1))) + cvd_delta ((?H @ [?f]) ! n)"
      proof (cases "n < length ?H")
        case True
        then have a: "(?H @ [?f]) ! n = ?H ! n" and b: "(?H @ [?f]) ! (n - 1) = ?H ! (n - 1)"
          by (simp_all add: nth_append)
        show ?thesis
          unfolding a b using chain True by blast
      next
        case False
        with n have "n = length ?H" by simp
        then show ?thesis
          using f_cum by (cases "?H = []") (simp_all add: nth_append last_conv_nth)
      qed
    qed
    have c2: "\<forall>n<length (?H @ [?f]). cvd_delta ((?H @ [?f]) ! n) = signed_sum (attributed (ts @ [t]) h n)"
    proof (intro allI impI)
      fix n assume n: "n < length (?H @ [?f])"
      show "cvd_delta ((?H @ [?f]) ! n) = signed_sum (attributed (ts @ [t]) h n)"
      proof (cases "n < length ?H")
        case True
        then show ?thesis using deltas old by (simp add: nth_append)
      next
        case False
        with n have "n = length ?H" by simp
        then show ?thesis using f_delta by (simp add: nth_append)
      qed
    qed
    have s': "process_ticks (unbounded initial_state) (ts @ [t]) h =
                (let st2 = ?s\<lparr>bars := dq_append (bars ?s) ?f\<rparr>
                 in st2\<lparr>current_bar := Some (fresh_bar st2 t)\<rparr>)"
      using True by (simp add: process_ticks_snoc process_tick_close Let_def)
    have items2: "dq_items (dq_append (bars ?s) ?f) = ?H @ [?f]"
    proof -
      have "maxlen (bars ?s) = None"
        by (rule unbounded_maxlen_run) (simp add: unbounded_def)
      then show ?thesis
        by (simp add: dq_append_def sH)
    qed
    have none: "attributed (ts @ [t]) h (Suc (length ?H)) = []"
      by (simp add: attributed_snoc attributed_beyond)
    have c3: "\<forall>b. current_bar (process_ticks (unbounded initial_state) (ts @ [t]) h) = Some b \<longrightarrow>
              cvd_cum b = (if ?H @ [?f] = [] then 0 else cvd_cum (last (?H @ [?f]))) \<and>
              cvd_delta b = signed_sum (attributed (ts @ [t]) h (length (?H @ [?f])))"
      unfolding s' by (simp add: Let_def fresh_bar_def items2 none)
    show ?thesis
      unfolding H' using c1 c2 c3 by blast
  qed
qed

subsection \<open>The prices the open bar has seen\<close>








lemma initial_run_open_bar:
  assumes "closed_bars initial_state ts h \<noteq> []"
  shows "\<exists>b. current_bar (process_ticks initial_state ts h) = Some b \<and>
             cvd_cum b = cvd_cum (last (closed_bars initial_state ts h))"
proof -
  let ?su = "process_ticks (unbounded initial_state) ts h"
  have "ts \<noteq> []"
    using assms unbounded_initial_run_bar [of ts h ?su] by (auto simp: closed_bars_def)
  then obtain b where b: "current_bar ?su = Some b"
    using unbounded_initial_run_bar [of ts h ?su] by auto
  then have "cvd_cum b = cvd_cum (last (closed_bars initial_state ts h))"
    using cvd_invariant [of ts h] assms by simp
  moreover have "sim 200 (process_ticks initial_state ts h) ?su"
    by (rule sim_run) (simp_all add: sim_def unbounded_def initial_state_def)
  then have "current_bar (process_ticks initial_state ts h) = current_bar ?su"
    by (simp add: sim_def)
  ultimately show ?thesis using b by simp
qed

subsection \<open>Deduplication and the last trade id\<close>

lemma dedupe_cases:
  "dedupe None trades = trades"
  "dedupe (Some []) trades = trades"
  "l \<noteq> [] \<Longrightarrow> dedupe (Some l) trades = filter (\<lambda>t. l < t_id t) trades"
  by (simp_all add: dedupe_def)

lemma process_tick_last_trade_id: "last_trade_id (process_tick st trade h) = last_trade_id st"
  by (cases "h \<le> high (updated_bar (opening_bar st trade) trade) - low (updated_bar (opening_bar st trade) trade)")
     (simp_all add: process_tick_close process_tick_keep Let_def)

lemma process_ticks_last_trade_id: "last_trade_id (process_ticks st ts h) = last_trade_id st"
  by (induction ts arbitrary: st) (simp_all add: process_tick_last_trade_id)

lemma fetch_data_last_trade_id:
  "last_trade_id (fetch_data st trades r) =
     (if dedupe (last_trade_id st) trades = [] then last_trade_id st
      else Some (t_id (last (dedupe (last_trade_id st) trades))))"
  by (simp add: fetch_data_def Let_def process_ticks_last_trade_id)



lemma sorted_le_last:
  assumes "sorted (map f xs)" and "x \<in> set xs"
  shows "f x \<le> f (last xs)"
  using assms
proof (induction xs)
  case Nil
  then show ?case by simp
next
  case (Cons a xs)
  then show ?case by (cases "xs = []") auto
qed




lemma dedupe_subset: "set (dedupe l trades) \<subseteq> set trades"
  by (cases l) (auto simp: dedupe_def)

lemma last_filter_keep:
  "xs \<noteq> [] \<Longrightarrow> P (last xs) \<Longrightarrow> last (filter P xs) = last xs"
  by (induction xs rule: rev_induct) simp_all

lemma dedupe_last:
  assumes "sorted (map t_id trades)" and "dedupe l trades \<noteq> []"
  shows "last (dedupe l trades) = last trades"
proof (cases "\<exists>m. l = Some m \<and> m \<noteq> []")
  case False
  then show ?thesis by (cases l) (auto simp: dedupe_def)
next
  case True
  then obtain m where m: "l = Some m" "m \<noteq> []" by blast
  then have out: "dedupe l trades = filter (\<lambda>t. m < t_id t) trades"
    by (simp add: dedupe_def)
  with assms(2) obtain t where t: "t \<in> set trades" "m < t_id t"
    by (auto simp: filter_empty_conv)
  then have "t_id t \<le> t_id (last trades)"
    using sorted_le_last [OF assms(1)] by simp
  with t(2) have "m < t_id (last trades)" by simp
  moreover have "trades \<noteq> []" using t(1) by auto
  ultimately show ?thesis
    unfolding out by (simp add: last_filter_keep)
qed

section \<open>The claims\<close>

subsection \<open>The worked example\<close>

lemma example_run:
  "process_ticks initial_state example_trades example_h =
     \<lparr>bars = \<lparr>maxlen = Some 200, dq_items =
         [\<lparr>time = 1, open_b = 100, high = 10016 / 100, low = 100,
           close = 10016 / 100, volume = 6, cvd_delta = 4, cvd_cum = 4\<rparr>]\<rparr>,
      current_bar = Some \<lparr>time = 3, open_b = 10016 / 100, high = 10016 / 100,
          low = 10016 / 100, close = 10016 / 100, volume = 0, cvd_delta = 0, cvd_cum = 4\<rparr>,
      last_trade_id = None\<rparr>"
  by (simp add: example_trades_def example_h_def initial_state_def process_tick_def
        init_new_bar_def dq_append_def Let_def)

lemma example_closed:
  "closed_bars initial_state example_trades example_h =
     [\<lparr>time = 1, open_b = 100, high = 10016 / 100, low = 100,
       close = 10016 / 100, volume = 6, cvd_delta = 4, cvd_cum = 4\<rparr>]"
  by (simp add: closed_bars_def unbounded_def example_trades_def example_h_def
        initial_state_def process_tick_def init_new_bar_def dq_append_def Let_def)



subsection \<open>When a bar closes\<close>



subsection \<open>Conservation of the cumulative volume delta\<close>



subsection \<open>The bar opened by a closing trade\<close>

text \<open>
  C3. When a trade closes a bar (the range of the updated open bar reaches the
  threshold), the closed bar becomes the newest bar of the history and the new open bar
  has \<open>open\<close>, \<open>high\<close>, \<open>low\<close> and \<open>close\<close> equal to the price of that trade, \<open>volume\<close> and
  \<open>cvd_delta\<close> zero, \<open>time\<close> the trade's timestamp in seconds, and \<open>cvd_cum\<close> the final
  \<open>cvd_cum\<close> of the bar just closed. The amount of the closing trade is in the closed
  bar's \<open>volume\<close> and \<open>cvd_delta\<close>, and so in its \<open>cvd_cum\<close>, and not in the new bar. A bar
  created while the history is empty starts with \<open>cvd_cum\<close> zero. The deque's capacity
  is 200 or 100 in the program; the theorem needs it to be other than zero.
\<close>

theorem carry_over_seeding:
  assumes "h \<le> high (updated_bar (opening_bar st trade) trade) - low (updated_bar (opening_bar st trade) trade)"
      and "maxlen (bars st) \<noteq> Some 0"
  shows "dq_items (bars (process_tick st trade h)) \<noteq> [] \<and>
         last (dq_items (bars (process_tick st trade h))) = finalized (updated_bar (opening_bar st trade) trade) \<and>
         current_bar (process_tick st trade h) =
           Some \<lparr>time = real_of_int (t_timestamp trade) / 1000,
                 open_b = t_price trade, high = t_price trade, low = t_price trade,
                 close = t_price trade, volume = 0, cvd_delta = 0,
                 cvd_cum = cvd_cum (last (dq_items (bars (process_tick st trade h))))\<rparr> \<and>
         volume (finalized (updated_bar (opening_bar st trade) trade))
           = volume (opening_bar st trade) + t_amount trade \<and>
         cvd_delta (finalized (updated_bar (opening_bar st trade) trade))
           = cvd_delta (opening_bar st trade) + (if t_side trade = Buy then t_amount trade else - t_amount trade) \<and>
         cvd_cum (finalized (updated_bar (opening_bar st trade) trade))
           = cvd_cum (opening_bar st trade) + cvd_delta (finalized (updated_bar (opening_bar st trade) trade)) \<and>
         (dq_items (bars st) = [] \<longrightarrow>
            map_option cvd_cum (current_bar (init_new_bar st (t_price trade) (t_timestamp trade))) = Some 0)"
proof -
  let ?f = "finalized (updated_bar (opening_bar st trade) trade)"
  have items: "dq_items (dq_append (bars st) ?f) \<noteq> [] \<and> last (dq_items (dq_append (bars st) ?f)) = ?f"
  proof (cases "maxlen (bars st)")
    case None
    then show ?thesis by (simp add: dq_append_def)
  next
    case (Some n)
    with assms(2) have "0 < n" by simp
    then have "Suc (length (dq_items (bars st))) - n < Suc (length (dq_items (bars st)))"
      by simp
    then show ?thesis
      using Some by (simp add: dq_append_def last_drop)
  qed
  have "dq_items (bars st) = [] \<longrightarrow>
            map_option cvd_cum (current_bar (init_new_bar st (t_price trade) (t_timestamp trade))) = Some 0"
    by (simp add: init_new_bar_def)
  then show ?thesis
    using items
    by (simp add: process_tick_close [OF assms(1)] Let_def fresh_bar_def)
       (simp add: finalized_def updated_bar_def signed_amount_def)
qed

theorem carry_over_seeding_witness:
  "current_bar (process_tick
      \<lparr>bars = \<lparr>maxlen = Some 200, dq_items = []\<rparr>,
       current_bar = Some \<lparr>time = 1, open_b = 100, high = 1001 / 10, low = 100, close = 1001 / 10,
                           volume = 3, cvd_delta = 1, cvd_cum = 0\<rparr>,
       last_trade_id = None\<rparr>
      \<lparr>t_id = ''3'', t_price = 10016 / 100, t_amount = 3, t_side = Buy, t_timestamp = 3000\<rparr>
      example_h)
   = Some \<lparr>time = 3, open_b = 10016 / 100, high = 10016 / 100, low = 10016 / 100,
           close = 10016 / 100, volume = 0, cvd_delta = 0, cvd_cum = 4\<rparr>"
  using carry_over_seeding [of example_h
      "\<lparr>bars = \<lparr>maxlen = Some 200, dq_items = []\<rparr>,
       current_bar = Some \<lparr>time = 1, open_b = 100, high = 1001 / 10, low = 100, close = 1001 / 10,
                           volume = 3, cvd_delta = 1, cvd_cum = 0\<rparr>,
       last_trade_id = None\<rparr>"
      "\<lparr>t_id = ''3'', t_price = 10016 / 100, t_amount = 3, t_side = Buy, t_timestamp = 3000\<rparr>"]
  by (simp add: example_h_def opening_bar_def updated_bar_def finalized_def signed_amount_def)

subsection \<open>Deduplication\<close>

text \<open>
  C4. Deduplication returns the batch as it is when \<open>last_trade_id\<close> is absent, and
  the trades with a greater id, in their order, when it is a non-empty string (lemma
  \<open>dedupe_cases\<close>). The empty string is present but false in Python's test, and for it
  the batch is returned whole as well. A first batch that ends in a trade
  with the empty id leaves \<open>last_trade_id\<close> empty, and a second fetch of that trade passes
  it on again, where the filter on \<open>id > last_trade_id\<close> would drop it; the open bar then
  counts its amount twice.
\<close>

theorem dedupe_empty_last_id:
  "last_trade_id (fetch_data initial_state [trade_with_id ''''] 15) = Some '''' \<and>
   dedupe (Some '''') [trade_with_id ''''] = [trade_with_id ''''] \<and>
   filter (\<lambda>t. '''' < t_id t) [trade_with_id ''''] = [] \<and>
   map_option volume (current_bar (cycles initial_state 15 [[trade_with_id ''''], [trade_with_id '''']])) = Some 2"
  by (simp add: fetch_data_def dedupe_def initial_state_def trade_with_id_def TICK_VALUE_def
        process_tick_def init_new_bar_def dq_append_def Let_def)

subsection \<open>History\<close>



subsection \<open>Reset\<close>

text \<open>
  C6. The reset button replaces the history by an empty deque of capacity 100 and
  removes the open bar. Nothing else changes: \<open>last_trade_id\<close> is the one of the
  state before, so the next fetch deduplicates against the same id as it would have
  without the reset.
\<close>

theorem reset_frame:
  "bars (reset st) = \<lparr>maxlen = Some 100, dq_items = []\<rparr> \<and>
   current_bar (reset st) = None \<and>
   last_trade_id (reset st) = last_trade_id st \<and>
   reset st = st\<lparr>bars := bars (reset st), current_bar := None\<rparr> \<and>
   dedupe (last_trade_id (reset st)) trades = dedupe (last_trade_id st) trades"
  by (simp add: reset_def)

theorem reset_frame_witness:
  "last_trade_id (fetch_data initial_state example_trades 15) = Some ''3'' \<and>
   last_trade_id (reset (fetch_data initial_state example_trades 15)) = Some ''3'' \<and>
   current_bar (reset (fetch_data initial_state example_trades 15)) = None"
  using reset_frame [of "fetch_data initial_state example_trades 15" "[]"]
  by (simp add: fetch_data_last_trade_id dedupe_def initial_state_def example_trades_def)

subsection \<open>What the chart and the status line receive\<close>

text \<open>
  C7, as the code has it. In each turn of the loop the chart receives the bounded history
  of closed bars and nothing else: the open bar is not part of the sequence. The status
  line receives the \<open>close\<close> of the newest closed bar, that bar's final \<open>cvd_cum\<close> and
  the number of closed bars in the history. While the history is empty neither receives
  anything. In a run from the initial state the history is the last 200 closed bars,
  and the \<open>cvd_cum\<close> shown is also the provisional \<open>cvd_cum\<close> of the open bar.
\<close>

theorem sink_receives_closed_bars:
  "snd (main_loop_turn st trades r) =
     (if dq_items (bars (fetch_data st trades r)) = [] then None
      else Some \<lparr>frame = dq_items (bars (fetch_data st trades r)),
                 last_price = close (last (dq_items (bars (fetch_data st trades r)))),
                 last_cvd = cvd_cum (last (dq_items (bars (fetch_data st trades r)))),
                 bar_count = length (dq_items (bars (fetch_data st trades r)))\<rparr>) \<and>
   main_loop_view (process_ticks initial_state ts h) =
     (if closed_bars initial_state ts h = [] then None
      else Some \<lparr>frame = drop (length (closed_bars initial_state ts h) - 200) (closed_bars initial_state ts h),
                 last_price = close (last (closed_bars initial_state ts h)),
                 last_cvd = cvd_cum (last (closed_bars initial_state ts h)),
                 bar_count = min 200 (length (closed_bars initial_state ts h))\<rparr>) \<and>
   (closed_bars initial_state ts h \<noteq> [] \<longrightarrow>
      map_option cvd_cum (current_bar (process_ticks initial_state ts h))
        = Some (cvd_cum (last (closed_bars initial_state ts h))))"
proof -
  let ?H = "closed_bars initial_state ts h"
  have items: "dq_items (bars (process_ticks initial_state ts h)) = drop (length ?H - 200) ?H"
    by (rule history_suffix) (simp_all add: initial_state_def)
  have a: "snd (main_loop_turn st trades r) =
     (if dq_items (bars (fetch_data st trades r)) = [] then None
      else Some \<lparr>frame = dq_items (bars (fetch_data st trades r)),
                 last_price = close (last (dq_items (bars (fetch_data st trades r)))),
                 last_cvd = cvd_cum (last (dq_items (bars (fetch_data st trades r)))),
                 bar_count = length (dq_items (bars (fetch_data st trades r)))\<rparr>)"
    by (simp add: main_loop_turn_def main_loop_view_def Let_def)
  have b: "main_loop_view (process_ticks initial_state ts h) =
     (if ?H = [] then None
      else Some \<lparr>frame = drop (length ?H - 200) ?H, last_price = close (last ?H),
                 last_cvd = cvd_cum (last ?H), bar_count = min 200 (length ?H)\<rparr>)"
  proof (cases "?H = []")
    case True
    then show ?thesis by (simp add: main_loop_view_def items)
  next
    case False
    have pos: "0 < (200::nat)" by simp
    have "drop (length ?H - 200) ?H \<noteq> []"
      using drop_suffix_empty [OF pos, of ?H] False by blast
    moreover have "last (drop (length ?H - 200) ?H) = last ?H"
      by (rule drop_suffix_last [OF pos False])
    ultimately show ?thesis using False
      unfolding main_loop_view_def items Let_def by (simp add: min.commute min_def)
  qed
  have c: "?H \<noteq> [] \<longrightarrow> map_option cvd_cum (current_bar (process_ticks initial_state ts h))
        = Some (cvd_cum (last ?H))"
    using initial_run_open_bar [of ts h] by auto
  from a b c show ?thesis by blast
qed

theorem sink_receives_closed_bars_witness:
  "closed_bars initial_state example_trades example_h \<noteq> [] \<and>
   main_loop_view (process_ticks initial_state example_trades example_h) =
     Some \<lparr>frame = [\<lparr>time = 1, open_b = 100, high = 10016 / 100, low = 100,
                      close = 10016 / 100, volume = 6, cvd_delta = 4, cvd_cum = 4\<rparr>],
           last_price = 10016 / 100, last_cvd = 4, bar_count = 1\<rparr> \<and>
   map_option cvd_cum (current_bar (process_ticks initial_state example_trades example_h)) = Some 4"
  using sink_receives_closed_bars [of initial_state "[]" 15 example_trades example_h]
  by (simp add: example_closed)

text \<open>
  After the three trades of the example and a fourth at 100.20, the frame is the one
  closed bar and does not end in the open bar, and the price shown is 100.16, not the
  open bar's \<open>close\<close> of 100.20. After the first trade alone there is an open bar and
  nothing is shown.
\<close>

theorem sink_open_bar_counterexample:
  "current_bar (process_ticks initial_state (example_trades @ [example_trade4]) example_h) =
     Some \<lparr>time = 3, open_b = 10016 / 100, high = 1002 / 10, low = 10016 / 100,
           close = 1002 / 10, volume = 1, cvd_delta = 1, cvd_cum = 4\<rparr> \<and>
   main_loop_view (process_ticks initial_state (example_trades @ [example_trade4]) example_h) =
     Some \<lparr>frame = [\<lparr>time = 1, open_b = 100, high = 10016 / 100, low = 100,
                      close = 10016 / 100, volume = 6, cvd_delta = 4, cvd_cum = 4\<rparr>],
           last_price = 10016 / 100, last_cvd = 4, bar_count = 1\<rparr> \<and>
   map_option frame (main_loop_view (process_ticks initial_state (example_trades @ [example_trade4]) example_h))
     \<noteq> Some (dq_items (bars (process_ticks initial_state (example_trades @ [example_trade4]) example_h))
              @ [\<lparr>time = 3, open_b = 10016 / 100, high = 1002 / 10, low = 10016 / 100,
                   close = 1002 / 10, volume = 1, cvd_delta = 1, cvd_cum = 4\<rparr>]) \<and>
   main_loop_view (process_ticks initial_state (take 1 example_trades) example_h) = None"
  by (simp add: process_ticks_snoc example_run)
     (simp add: example_trade4_def example_trades_def example_h_def initial_state_def
        process_tick_def init_new_bar_def dq_append_def main_loop_view_def Let_def)

subsection \<open>The last trade id\<close>




subsection \<open>Deduplicating the same batch twice\<close>

text \<open>
  C9, as the code has it. For a batch in ascending order of ids, none of them empty,
  deduplicating the batch again after \<open>last_trade_id\<close> has been updated from the first
  pass returns nothing, so no trade is in both outputs; and the first output holds
  exactly the trades of the batch with an id above the \<open>last_trade_id\<close> before (all of
  them when that is absent or empty), without a gap. The trades at or below it are in
  neither output.
\<close>

theorem dedupe_twice:
  assumes "sorted (map t_id trades)" and "[] \<notin> set (map t_id trades)"
  shows "dedupe (last_trade_id (fetch_data st trades r)) trades = [] \<and>
         set (dedupe (last_trade_id st) trades) \<inter> set (dedupe (last_trade_id (fetch_data st trades r)) trades) = {} \<and>
         (\<forall>t\<in>set trades. t \<in> set (dedupe (last_trade_id st) trades) \<longleftrightarrow>
             (case last_trade_id st of None \<Rightarrow> True | Some l \<Rightarrow> l = [] \<or> l < t_id t))"
proof -
  let ?out = "dedupe (last_trade_id st) trades"
  have second: "dedupe (last_trade_id (fetch_data st trades r)) trades = []"
  proof (cases "?out = []")
    case True
    then show ?thesis by (simp add: fetch_data_last_trade_id)
  next
    case False
    let ?m = "t_id (last trades)"
    have last_out: "last ?out = last trades"
      by (rule dedupe_last [OF assms(1) False])
    have "trades \<noteq> []"
      using False dedupe_subset [of "last_trade_id st" trades] by auto
    then have "?m \<noteq> []"
      using assms(2) by (metis image_eqI last_in_set set_map)
    moreover have "last_trade_id (fetch_data st trades r) = Some ?m"
      using False by (simp add: fetch_data_last_trade_id last_out)
    ultimately have "dedupe (last_trade_id (fetch_data st trades r)) trades
                     = filter (\<lambda>t. ?m < t_id t) trades"
      by (simp add: dedupe_cases)
    moreover have "\<forall>t\<in>set trades. \<not> ?m < t_id t"
      using sorted_le_last [OF assms(1)] by (simp add: not_less)
    ultimately show ?thesis
      by (simp add: filter_empty_conv)
  qed
  have first: "\<forall>t\<in>set trades. t \<in> set ?out \<longleftrightarrow>
             (case last_trade_id st of None \<Rightarrow> True | Some l \<Rightarrow> l = [] \<or> l < t_id t)"
    by (cases "last_trade_id st") (auto simp: dedupe_def)
  from second first show ?thesis by simp
qed

theorem dedupe_twice_witness:
  "sorted (map t_id [trade_with_id ''1'', trade_with_id ''2'', trade_with_id ''3'']) \<and>
   dedupe (Some ''1'') [trade_with_id ''1'', trade_with_id ''2'', trade_with_id ''3'']
     = [trade_with_id ''2'', trade_with_id ''3''] \<and>
   dedupe (last_trade_id (fetch_data (initial_state\<lparr>last_trade_id := Some ''1''\<rparr>)
        [trade_with_id ''1'', trade_with_id ''2'', trade_with_id ''3''] 15))
     [trade_with_id ''1'', trade_with_id ''2'', trade_with_id ''3''] = []"
  using dedupe_twice [of "[trade_with_id ''1'', trade_with_id ''2'', trade_with_id ''3'']"
          "initial_state\<lparr>last_trade_id := Some ''1''\<rparr>" 15]
  by (simp add: trade_with_id_def dedupe_def)

text \<open>
  With \<open>last_trade_id\<close> 5 and the batch of ids 3, 7, the trade with id 3 is in neither
  output.
\<close>

theorem dedupe_twice_counterexample:
  "sorted (map t_id [trade_with_id ''3'', trade_with_id ''7'']) \<and>
   trade_with_id ''3'' \<in> set [trade_with_id ''3'', trade_with_id ''7''] \<and>
   trade_with_id ''3'' \<notin> set (dedupe (Some ''5'') [trade_with_id ''3'', trade_with_id ''7'']) \<and>
   trade_with_id ''3'' \<notin> set (dedupe
       (last_trade_id (fetch_data (initial_state\<lparr>last_trade_id := Some ''5''\<rparr>)
          [trade_with_id ''3'', trade_with_id ''7''] 15))
       [trade_with_id ''3'', trade_with_id ''7''])"
  by (simp add: trade_with_id_def dedupe_def fetch_data_last_trade_id)

subsection \<open>The open bar stays below the threshold\<close>

text \<open>
  C10. With a positive threshold, after every call of \<open>process_tick\<close> (so after any
  non-empty sequence of calls, from any state) there is an open bar and its
  \<open>high - low\<close> is below the threshold: either the close test failed on it, or it is
  the bar just created, whose range is zero. One call appends at most one bar.
\<close>

theorem open_bar_below_threshold:
  assumes "0 < h" and "ts \<noteq> []"
  shows "(\<exists>b. current_bar (process_ticks st ts h) = Some b \<and> high b - low b < h) \<and>
         length (closed_bars st (ts @ [trade]) h) \<le> Suc (length (closed_bars st ts h))"
proof -
  from \<open>ts \<noteq> []\<close> obtain us u where "ts = us @ [u]"
    by (cases ts rule: rev_cases) auto
  then have "\<exists>b. current_bar (process_ticks st ts h) = Some b \<and> high b - low b < h"
    using process_tick_open_bar [OF \<open>0 < h\<close>] by (simp add: process_ticks_snoc)
  moreover have "length (closed_bars st (ts @ [trade]) h) \<le> Suc (length (closed_bars st ts h))"
    by (simp add: closed_bars_snoc Let_def)
  ultimately show ?thesis by blast
qed

theorem open_bar_below_threshold_witness:
  "0 < example_h \<and> example_trades \<noteq> [] \<and>
   (\<exists>b. current_bar (process_ticks initial_state example_trades example_h) = Some b \<and>
        high b - low b < example_h)"
  using open_bar_below_threshold [of example_h example_trades initial_state]
  by (simp add: example_trades_def example_h_def)

end
